theory Spec2Isabelle
  imports Main
begin

section \<open>The bundle cache usage database\<close>

text \<open>
  A shallow embedding of \<^verbatim>\<open>python/tank/descriptor/bundle_cache_usage/database.py\<close>:
  the class \<^verbatim>\<open>BundleCacheUsageDatabase\<close>, which keeps one row per tracked bundle in
  the SQLite table \<^verbatim>\<open>bundles\<close>, and \<^verbatim>\<open>BundleCacheUsageDatabaseEntry\<close>, the read-only
  view of one row.

  The table is a list of rows in storage order. Each SQL statement the class sends is a
  function on that list; the \<^verbatim>\<open>UNIQUE PRIMARY KEY\<close> constraint on \<^verbatim>\<open>path\<close> is the check
  made by \<open>sql_insert\<close>. Python integers are unbounded and an SQLite \<^verbatim>\<open>integer\<close> has 64
  bits: \<^verbatim>\<open>sqlite3\<close> raises \<^verbatim>\<open>OverflowError\<close> when a statement is given an integer outside
  that range. Exceptions are values of the type \<open>error\<close>; a method that can raise returns
  a sum, and a method that raises leaves the table as it was.
\<close>

subsection \<open>Rows and entries\<close>

datatype error = ValueError | IntegrityError | OverflowError | OSError

text \<open>A row as \<^verbatim>\<open>sqlite3\<close> returns it: path, creation, last usage, usage count.\<close>

type_synonym db_record = "string \<times> int \<times> int \<times> int"

type_synonym table = "db_record list"

record entry =
  path :: string
  creation_time :: int
  last_usage_time :: int
  usage_count :: int

text \<open>
  The constructor of the entry class reads the four columns by their indices
  \<^verbatim>\<open>DB_COL_INDEX_PATH\<close> .. \<^verbatim>\<open>DB_COL_INDEX_USAGE_COUNT\<close>, that is 0 .. 3.
\<close>

fun BundleCacheUsageDatabaseEntry :: "db_record \<Rightarrow> entry" where
  "BundleCacheUsageDatabaseEntry (p, c, l, u) =
     \<lparr>path = p, creation_time = c, last_usage_time = l, usage_count = u\<rparr>"

subsection \<open>What the platform and the process environment supply\<close>

text \<open>
  The object holds \<^verbatim>\<open>_bundle_cache_root\<close>. The separator \<^verbatim>\<open>os.sep\<close> is one character,
  fixed by the platform. The builtin \<^verbatim>\<open>int\<close> applied to a string is a parameter:
  \<open>None\<close> stands for its \<^verbatim>\<open>ValueError\<close>. So is
  \<^verbatim>\<open>datetime.datetime.fromtimestamp(time).strftime("%A, %d. %B %Y %H:%M%:%S")\<close>, which
  depends on the time zone, the locale and the C library of the platform: it returns the
  text of the date, or raises when the timestamp is out of the range of the platform or
  of the years 1 to 9999.
\<close>

record database =
  bundle_cache_root :: string
  os_sep :: char
  builtin_int :: "string \<Rightarrow> int option"
  fromtimestamp_strftime :: "int \<Rightarrow> error + string"

text \<open>
  What a call observes of the process at the moment it runs: the value of
  \<^verbatim>\<open>os.environ.get("SHOTGUN_BUNDLE_CACHE_USAGE_TIMESTAMP_OVERRIDE")\<close> and the value of
  \<^verbatim>\<open>int(time.time())\<close>.
\<close>

record environ =
  timestamp_override :: "string option"
  time_time :: int

subsection \<open>Strings\<close>

definition startswith :: "string \<Rightarrow> string \<Rightarrow> bool" where
  "startswith s p = (take (length p) s = p)"

text \<open>
  \<^verbatim>\<open>s.replace(old, new)\<close>: every occurrence of \<open>old\<close>, found from the left without
  overlap, becomes \<open>new\<close>. With an empty \<open>old\<close>, \<open>new\<close> is put before every character and
  at the end.
\<close>

function str_replace :: "string \<Rightarrow> string \<Rightarrow> string \<Rightarrow> string" where
  "str_replace [] old new = (if old = [] then new else [])"
| "str_replace (c # cs) old new =
     (if old = [] then new @ c # str_replace cs old new
      else if startswith (c # cs) old
        then new @ str_replace (drop (length old) (c # cs)) old new
      else c # str_replace cs old new)"
  by pat_completeness auto
termination
  by (relation "measure (\<lambda>(s, old, new). length s)") auto

text \<open>\<^verbatim>\<open>old in s\<close>: the string \<open>old\<close> occurs somewhere in \<open>s\<close>.\<close>

fun str_contains :: "string \<Rightarrow> string \<Rightarrow> bool" where
  "str_contains [] old = (old = [])"
| "str_contains (c # cs) old = (startswith (c # cs) old \<or> str_contains cs old)"

text \<open>\<^verbatim>\<open>"%d" % n\<close>: the decimal digits of an integer, after a minus sign when it is negative.\<close>

function decimal_digits :: "nat \<Rightarrow> string" where
  "decimal_digits n =
     (if n < 10 then [''0123456789'' ! n]
      else decimal_digits (n div 10) @ [''0123456789'' ! (n mod 10)])"
  by pat_completeness auto
termination
  by (relation "measure (\<lambda>n. n)") auto

declare decimal_digits.simps [simp del]

definition percent_d :: "int \<Rightarrow> string" where
  "percent_d n = (if n < 0 then CHR ''-'' # decimal_digits (nat (- n)) else decimal_digits (nat n))"

subsection \<open>The entry class\<close>

definition format_date_from_timestamp :: "database \<Rightarrow> int \<Rightarrow> error + string" where
  "format_date_from_timestamp self time = fromtimestamp_strftime self time"

definition creation_date_formatted :: "database \<Rightarrow> entry \<Rightarrow> error + string" where
  "creation_date_formatted self e = format_date_from_timestamp self (creation_time e)"

definition last_usage_date_formatted :: "database \<Rightarrow> entry \<Rightarrow> error + string" where
  "last_usage_date_formatted self e = format_date_from_timestamp self (last_usage_time e)"

text \<open>\<^verbatim>\<open>__str__\<close>: \<^verbatim>\<open>"%s, %d (%s)" % (self.path, self.last_usage_time, self.last_usage_date_formatted)\<close>\<close>

definition entry_str :: "database \<Rightarrow> entry \<Rightarrow> error + string" where
  "entry_str self e =
     (case last_usage_date_formatted self e of
        Inl err \<Rightarrow> Inl err
      | Inr date \<Rightarrow>
          Inr (path e @ '', '' @ percent_d (last_usage_time e) @ '' ('' @ date @ '')''))"

subsection \<open>The SQL statements\<close>

text \<open>
  The integers \<^verbatim>\<open>sqlite3\<close> can bind to a parameter of a statement: those of 64 bits, signed.
  It checks every parameter before the statement runs.
\<close>

definition sqlite_integer :: "int \<Rightarrow> bool" where
  "sqlite_integer n = (- (2 ^ 63) \<le> n \<and> n < 2 ^ 63)"

text \<open>\<^verbatim>\<open>CREATE TABLE IF NOT EXISTS bundles (...)\<close> on a file that may hold the table already.\<close>

definition create_main_table :: "table option \<Rightarrow> table" where
  "create_main_table stored = (case stored of None \<Rightarrow> [] | Some tbl \<Rightarrow> tbl)"

text \<open>\<^verbatim>\<open>SELECT * FROM bundles WHERE path = ?\<close>\<close>

definition sql_select_path :: "table \<Rightarrow> string \<Rightarrow> db_record list" where
  "sql_select_path tbl p = filter (\<lambda>r. fst r = p) tbl"

definition fetchone :: "db_record list \<Rightarrow> db_record option" where
  "fetchone rs = (case rs of [] \<Rightarrow> None | r # _ \<Rightarrow> Some r)"

text \<open>\<^verbatim>\<open>UPDATE bundles SET last_usage = ?, usage_count = ? WHERE path = ?\<close>\<close>

definition updated :: "table \<Rightarrow> int \<Rightarrow> int \<Rightarrow> string \<Rightarrow> table" where
  "updated tbl last_usage count p =
     map (\<lambda>(p', c, l, u). if p' = p then (p', c, last_usage, count) else (p', c, l, u)) tbl"

definition sql_update :: "table \<Rightarrow> int \<Rightarrow> int \<Rightarrow> string \<Rightarrow> error + table" where
  "sql_update tbl last_usage count p =
     (if sqlite_integer last_usage \<and> sqlite_integer count
      then Inr (updated tbl last_usage count p)
      else Inl OverflowError)"

text \<open>
  \<^verbatim>\<open>INSERT INTO bundles(path, creation, last_usage, usage_count) VALUES(?,?,?,?)\<close>:
  the key constraint rejects a path that a row has already.
\<close>

fun sql_insert :: "table \<Rightarrow> db_record \<Rightarrow> error + table" where
  "sql_insert tbl (p, c, l, u) =
     (if sqlite_integer c \<and> sqlite_integer l \<and> sqlite_integer u then
        if p \<in> set (map fst tbl) then Inl IntegrityError else Inr (tbl @ [(p, c, l, u)])
      else Inl OverflowError)"

text \<open>\<^verbatim>\<open>DELETE FROM bundles WHERE path=?\<close>\<close>

definition sql_delete :: "table \<Rightarrow> string \<Rightarrow> table" where
  "sql_delete tbl p = filter (\<lambda>r. fst r \<noteq> p) tbl"

text \<open>\<^verbatim>\<open>SELECT * FROM bundles WHERE last_usage <= ?\<close>\<close>

definition sql_select_last_usage :: "table \<Rightarrow> int \<Rightarrow> error + db_record list" where
  "sql_select_last_usage tbl t =
     (if sqlite_integer t then Inr (filter (\<lambda>(p, c, l, u). l \<le> t) tbl)
      else Inl OverflowError)"

subsection \<open>The private methods\<close>

definition find_entry :: "table \<Rightarrow> string \<Rightarrow> entry option" where
  "find_entry tbl bundle_path =
     (case fetchone (sql_select_path tbl bundle_path) of
        None \<Rightarrow> None
      | Some db_record \<Rightarrow> Some (BundleCacheUsageDatabaseEntry db_record))"

definition get_timestamp :: "database \<Rightarrow> environ \<Rightarrow> error + int" where
  "get_timestamp self env =
     (case timestamp_override env of
        None \<Rightarrow> Inr (time_time env)
      | Some s \<Rightarrow>
          if s \<noteq> [] then
            (case builtin_int self s of None \<Rightarrow> Inl ValueError | Some n \<Rightarrow> Inr n)
          else Inr (time_time env))"

text \<open>The argument is \<open>None\<close> for Python's \<^verbatim>\<open>None\<close>, and so is the result.\<close>

definition truncate_path :: "database \<Rightarrow> string option \<Rightarrow> string option" where
  "truncate_path self bundle_path =
     (case bundle_path of
        None \<Rightarrow> None
      | Some p \<Rightarrow>
          if p = [] \<or> \<not> startswith p (bundle_cache_root self) then None
          else
            (let truncated_path = str_replace p (bundle_cache_root self) []
             in if startswith truncated_path [os_sep self]
                then Some (drop (length [os_sep self]) truncated_path)
                else Some truncated_path))"

definition internal_log_usage ::
  "database \<Rightarrow> environ \<Rightarrow> string option \<Rightarrow> int \<Rightarrow> table \<Rightarrow> error + table" where
  "internal_log_usage self env bundle_path initial_usage_count tbl =
     (case truncate_path self bundle_path of
        None \<Rightarrow> Inr tbl
      | Some truncated_path \<Rightarrow>
          if truncated_path = [] then Inr tbl
          else
            (case get_timestamp self env of
               Inl e \<Rightarrow> Inl e
             | Inr now_unix_timestamp \<Rightarrow>
                 (case find_entry tbl truncated_path of
                    Some entry \<Rightarrow>
                      sql_update tbl now_unix_timestamp (usage_count entry + 1) (path entry)
                  | None \<Rightarrow>
                      sql_insert tbl
                        (truncated_path, now_unix_timestamp, now_unix_timestamp,
                         initial_usage_count))))"

subsection \<open>The public methods\<close>

definition add_unused_bundle ::
  "database \<Rightarrow> environ \<Rightarrow> string option \<Rightarrow> table \<Rightarrow> error + table" where
  "add_unused_bundle self env bundle_path tbl = internal_log_usage self env bundle_path 0 tbl"

definition log_usage ::
  "database \<Rightarrow> environ \<Rightarrow> string option \<Rightarrow> table \<Rightarrow> error + table" where
  "log_usage self env bundle_path tbl = internal_log_usage self env bundle_path 1 tbl"

definition delete_entry :: "entry \<Rightarrow> table \<Rightarrow> table" where
  "delete_entry bundle tbl = sql_delete tbl (path bundle)"

text \<open>
  The message for \<^verbatim>\<open>log.debug\<close> is formatted before the call, with \<^verbatim>\<open>__str__\<close> of the entry
  found: when that raises, so does \<open>get_bundle\<close>.
\<close>

definition get_bundle ::
  "database \<Rightarrow> string option \<Rightarrow> table \<Rightarrow> error + entry option" where
  "get_bundle self bundle_path tbl =
     (case truncate_path self bundle_path of
        None \<Rightarrow> Inr None
      | Some truncated_path \<Rightarrow>
          if truncated_path = [] then Inr None
          else
            (case find_entry tbl truncated_path of
               None \<Rightarrow> Inr None
             | Some bundle \<Rightarrow>
                 (case entry_str self bundle of
                    Inl err \<Rightarrow> Inl err
                  | Inr message \<Rightarrow> Inr (Some bundle))))"

definition get_bundle_count :: "table \<Rightarrow> int" where
  "get_bundle_count tbl = int (length tbl)"

definition get_unused_bundles :: "int \<Rightarrow> table \<Rightarrow> error + entry list" where
  "get_unused_bundles since_timestamps tbl =
     (case sql_select_last_usage tbl since_timestamps of
        Inl err \<Rightarrow> Inl err
      | Inr db_records \<Rightarrow> Inr (map BundleCacheUsageDatabaseEntry db_records))"

subsection \<open>Sessions\<close>

text \<open>
  A session is a sequence of calls of the three methods that write, each with what it
  observes of the process. A call that raises leaves the table unchanged and the session
  goes on with the next call. The tables a database can hold are those a session produces
  from a fresh file.
\<close>

datatype call =
    Log_usage "string option"
  | Add_unused_bundle "string option"
  | Delete_entry entry

fun perform :: "database \<Rightarrow> environ \<Rightarrow> call \<Rightarrow> table \<Rightarrow> error + table" where
  "perform self env (Log_usage bundle_path) tbl = log_usage self env bundle_path tbl"
| "perform self env (Add_unused_bundle bundle_path) tbl =
     add_unused_bundle self env bundle_path tbl"
| "perform self env (Delete_entry bundle) tbl = Inr (delete_entry bundle tbl)"

fun run :: "database \<Rightarrow> (environ \<times> call) list \<Rightarrow> table \<Rightarrow> table" where
  "run self [] tbl = tbl"
| "run self ((env, c) # calls) tbl =
     run self calls (case perform self env c tbl of Inl e \<Rightarrow> tbl | Inr tbl' \<Rightarrow> tbl')"

definition session :: "database \<Rightarrow> (environ \<times> call) list \<Rightarrow> table" where
  "session self calls = run self calls (create_main_table None)"

text \<open>A script of calls with no exception handler: the first exception ends it.\<close>

fun perform_all :: "database \<Rightarrow> (environ \<times> call) list \<Rightarrow> table \<Rightarrow> error + table" where
  "perform_all self [] tbl = Inr tbl"
| "perform_all self ((env, c) # calls) tbl =
     (case perform self env c tbl of
        Inl e \<Rightarrow> Inl e
      | Inr tbl' \<Rightarrow> perform_all self calls tbl')"

text \<open>
  The readings the timestamp source gives along a session, in order; a call whose
  override does not convert contributes none.
\<close>

fun stamps :: "database \<Rightarrow> (environ \<times> call) list \<Rightarrow> int list" where
  "stamps self [] = []"
| "stamps self ((env, c) # calls) =
     (case get_timestamp self env of
        Inl e \<Rightarrow> stamps self calls
      | Inr t \<Rightarrow> t # stamps self calls)"

subsection \<open>Properties of entries and tables\<close>

definition consistent_times :: "entry \<Rightarrow> bool" where
  "consistent_times e = (creation_time e \<le> last_usage_time e)"

text \<open>Every row was created no later than it was last used, and no later than \<open>b\<close>.\<close>

definition times_upto :: "int \<Rightarrow> table \<Rightarrow> bool" where
  "times_upto b tbl = (\<forall>(p, c, l, u) \<in> set tbl. c \<le> l \<and> c \<le> b)"

subsection \<open>A database for the examples\<close>

text \<open>
  The examples run on a database rooted at \<^verbatim>\<open>/cache\<close> on a platform whose separator is
  the slash. Its \<open>builtin_int\<close> reads a non-empty string of decimal digits and fails on
  every other string; the examples apply it to \<^verbatim>\<open>str(n)\<close> for a natural number and to a
  word of letters only, where Python's \<^verbatim>\<open>int\<close> does the same. Its dates are those of a
  host on universal time, from 1970 to the end of the year 9999, and the examples do not
  look at their text.
\<close>

definition digit_value :: "char \<Rightarrow> int option" where
  "digit_value c =
     (let n = (of_char c :: nat)
      in if 48 \<le> n \<and> n \<le> 57 then Some (int n - 48) else None)"

fun decimal :: "int \<Rightarrow> string \<Rightarrow> int option" where
  "decimal acc [] = Some acc"
| "decimal acc (c # cs) =
     (case digit_value c of None \<Rightarrow> None | Some d \<Rightarrow> decimal (10 * acc + d) cs)"

definition int_of_digits :: "string \<Rightarrow> int option" where
  "int_of_digits s = (if s = [] then None else decimal 0 s)"

definition example_date :: "int \<Rightarrow> error + string" where
  "example_date t = (if 0 \<le> t \<and> t < 253402300800 then Inr ''a date'' else Inl ValueError)"

definition example_db :: database where
  "example_db =
     \<lparr>bundle_cache_root = ''/cache'', os_sep = CHR ''/'', builtin_int = int_of_digits,
      fromtimestamp_strftime = example_date\<rparr>"

definition example_path :: "string option" where
  "example_path = Some ''/cache/app_store/tk-shell/v1''"

definition at_time :: "int \<Rightarrow> environ" where
  "at_time t = \<lparr>timestamp_override = None, time_time = t\<rparr>"

definition with_override :: "string \<Rightarrow> int \<Rightarrow> environ" where
  "with_override s t = \<lparr>timestamp_override = Some s, time_time = t\<rparr>"

lemmas ledger_defs =
  truncate_path_def startswith_def get_timestamp_def internal_log_usage_def log_usage_def
  add_unused_bundle_def delete_entry_def get_bundle_def get_bundle_count_def
  get_unused_bundles_def find_entry_def fetchone_def sql_select_path_def sql_update_def
  updated_def
  sql_delete_def sql_select_last_usage_def create_main_table_def session_def sqlite_integer_def
  entry_str_def last_usage_date_formatted_def format_date_from_timestamp_def

lemmas example_defs =
  example_db_def example_path_def at_time_def with_override_def int_of_digits_def
  digit_value_def example_date_def

section \<open>Looking rows up\<close>

lemma find_entry_Nil: "find_entry [] k = None"
  by (simp add: find_entry_def sql_select_path_def fetchone_def)

lemma find_entry_Cons:
  "find_entry (r # tbl) k =
     (if fst r = k then Some (BundleCacheUsageDatabaseEntry r) else find_entry tbl k)"
  by (simp add: find_entry_def sql_select_path_def fetchone_def)

lemma find_entry_None: "find_entry tbl k = None \<longleftrightarrow> k \<notin> fst ` set tbl"
  by (induction tbl) (auto simp: find_entry_Cons find_entry_Nil)

lemma find_entry_path: "find_entry tbl k = Some e \<Longrightarrow> path e = k"
  by (induction tbl) (auto simp: find_entry_Cons find_entry_Nil split: if_splits)

lemma find_entry_append_new:
  "k \<notin> fst ` set tbl \<Longrightarrow>
   find_entry (tbl @ [(k, c, l, u)]) k =
     Some \<lparr>path = k, creation_time = c, last_usage_time = l, usage_count = u\<rparr>"
  by (induction tbl) (auto simp: find_entry_Cons find_entry_Nil)

lemma find_entry_updated:
  "find_entry tbl k = Some e \<Longrightarrow>
   find_entry (updated tbl now n k) k = Some (e\<lparr>last_usage_time := now, usage_count := n\<rparr>)"
  by (induction tbl) (auto simp: find_entry_Cons find_entry_Nil updated_def split: if_splits)

lemma find_entry_delete: "find_entry (sql_delete tbl p) p = None"
  by (auto simp: find_entry_None sql_delete_def)

lemma find_entry_delete_other:
  "k \<noteq> p \<Longrightarrow> find_entry (sql_delete tbl p) k = find_entry tbl k"
  by (induction tbl) (auto simp: find_entry_Cons find_entry_Nil sql_delete_def)

lemma entry_path: "path (BundleCacheUsageDatabaseEntry r) = fst r"
  by (cases r) simp

lemma keys_updated: "map fst (updated tbl now n k) = map fst tbl"
  by (induction tbl) (auto simp: updated_def)

section \<open>The outcomes of logging a usage\<close>

lemma internal_log_usage_no_key:
  assumes "truncate_path self bundle_path = None \<or> truncate_path self bundle_path = Some []"
  shows "internal_log_usage self env bundle_path i tbl = Inr tbl"
  using assms by (auto simp: internal_log_usage_def)

lemma internal_log_usage_error:
  assumes "truncate_path self bundle_path = Some k" and "k \<noteq> []"
    and "get_timestamp self env = Inl e"
  shows "internal_log_usage self env bundle_path i tbl = Inl e"
  using assms by (simp add: internal_log_usage_def)

lemma internal_log_usage_insert:
  assumes "truncate_path self bundle_path = Some k" and "k \<noteq> []"
    and "get_timestamp self env = Inr now" and "find_entry tbl k = None"
    and "sqlite_integer now" and "sqlite_integer i"
  shows "internal_log_usage self env bundle_path i tbl = Inr (tbl @ [(k, now, now, i)])"
proof -
  have "k \<notin> fst ` set tbl"
    using assms(4) by (simp add: find_entry_None)
  with assms show ?thesis
    by (simp add: internal_log_usage_def)
qed

lemma internal_log_usage_update:
  assumes "truncate_path self bundle_path = Some k" and "k \<noteq> []"
    and "get_timestamp self env = Inr now" and "find_entry tbl k = Some e"
    and "sqlite_integer now" and "sqlite_integer (usage_count e + 1)"
  shows "internal_log_usage self env bundle_path i tbl =
           Inr (updated tbl now (usage_count e + 1) k)"
  using assms find_entry_path [OF assms(4)]
  by (simp add: internal_log_usage_def sql_update_def)

lemma internal_log_usage_overflow:
  assumes "truncate_path self bundle_path = Some k" and "k \<noteq> []"
    and "get_timestamp self env = Inr now" and "\<not> sqlite_integer now"
  shows "internal_log_usage self env bundle_path i tbl = Inl OverflowError"
  using assms by (simp add: internal_log_usage_def sql_update_def split: option.splits)

lemma get_bundle_key:
  assumes "truncate_path self bundle_path = Some k" and "k \<noteq> []"
  shows "get_bundle self bundle_path tbl =
           (case find_entry tbl k of
              None \<Rightarrow> Inr None
            | Some bundle \<Rightarrow>
                (case entry_str self bundle of
                   Inl err \<Rightarrow> Inl err
                 | Inr message \<Rightarrow> Inr (Some bundle)))"
  using assms by (simp add: get_bundle_def)

section \<open>Truncating a path\<close>

lemma truncate_path_None_iff:
  "truncate_path self bundle_path = None \<longleftrightarrow>
     (case bundle_path of
        None \<Rightarrow> True
      | Some p \<Rightarrow> p = [] \<or> \<not> startswith p (bundle_cache_root self))"
  by (simp add: truncate_path_def Let_def split: option.splits)

lemma str_replace_prefix:
  assumes "old \<noteq> []"
  shows "str_replace (old @ s) old new = new @ str_replace s old new"
proof -
  from assms obtain c cs where old: "old = c # cs"
    by (cases old) auto
  have "startswith ((c # cs) @ s) (c # cs)"
    by (simp add: startswith_def)
  then show ?thesis
    unfolding old by simp
qed

lemma str_contains_empty: "str_contains s []"
  by (cases s) (simp_all add: startswith_def)

lemma str_replace_absent: "\<not> str_contains s old \<Longrightarrow> str_replace s old new = s"
proof (induction s)
  case Nil
  then show ?case by simp
next
  case (Cons c cs)
  from Cons.prems have "old \<noteq> []"
    using str_contains_empty by blast
  with Cons show ?case by simp
qed

text \<open>
  A path made of the cache root, one separator and a key, in which the root does not
  occur after its start, is truncated to the key.
\<close>

lemma truncate_path_under_root:
  assumes "bundle_path = Some (bundle_cache_root self @ os_sep self # k)"
    and "\<not> str_contains (os_sep self # k) (bundle_cache_root self)"
  shows "truncate_path self bundle_path = Some k"
proof -
  let ?root = "bundle_cache_root self"
  have root: "?root \<noteq> []"
    using assms(2) str_contains_empty by metis
  have "str_replace (?root @ os_sep self # k) ?root [] = str_replace (os_sep self # k) ?root []"
    using root by (subst str_replace_prefix) simp_all
  also have "\<dots> = os_sep self # k"
    using assms(2) by (rule str_replace_absent)
  finally have "str_replace (?root @ os_sep self # k) ?root [] = os_sep self # k" .
  then show ?thesis
    by (simp add: truncate_path_def assms(1) startswith_def)
qed


section \<open>Counting usages\<close>

text \<open>
  Logging a usage of a tracked bundle again and again, at times and up to a count that
  SQLite stores: the count grows by the number of calls, the last usage time is the time
  of the last call, the rest of the entry stays.
\<close>

lemma log_usage_repeat_present:
  assumes "truncate_path self bundle_path = Some k" and "k \<noteq> []"
    and "map (get_timestamp self) envs = map Inr ts"
    and "find_entry tbl k = Some e"
    and "list_all sqlite_integer ts"
    and "0 \<le> usage_count e" and "usage_count e + int (length ts) < 2 ^ 63"
  shows "\<exists>tbl'. perform_all self (map (\<lambda>env. (env, Log_usage bundle_path)) envs) tbl = Inr tbl' \<and>
           find_entry tbl' k =
             Some (e\<lparr>last_usage_time := last (last_usage_time e # ts),
                     usage_count := usage_count e + int (length ts)\<rparr>)"
  using assms(3-7)
proof (induction envs arbitrary: ts tbl e)
  case Nil
  then show ?case by simp
next
  case (Cons env envs)
  from Cons.prems(1) obtain t ts' where ts: "ts = t # ts'"
    and t: "get_timestamp self env = Inr t"
    and ts': "map (get_timestamp self) envs = map Inr ts'"
    by (cases ts) auto
  let ?tbl1 = "updated tbl t (usage_count e + 1) k"
  let ?e1 = "e\<lparr>last_usage_time := t, usage_count := usage_count e + 1\<rparr>"
  have range_t: "sqlite_integer t" and range_ts': "list_all sqlite_integer ts'"
    using Cons.prems(3) ts by simp_all
  have range_n: "sqlite_integer (usage_count e + 1)"
    using Cons.prems(4,5) ts by (simp add: sqlite_integer_def)
  have step: "log_usage self env bundle_path tbl = Inr ?tbl1"
    unfolding log_usage_def
    by (rule internal_log_usage_update [OF assms(1,2) t Cons.prems(2) range_t range_n])
  have found: "find_entry ?tbl1 k = Some ?e1"
    by (rule find_entry_updated [OF Cons.prems(2)])
  have pos: "0 \<le> usage_count ?e1" and below: "usage_count ?e1 + int (length ts') < 2 ^ 63"
    using Cons.prems(4,5) ts by simp_all
  from Cons.IH [OF ts' found range_ts' pos below] obtain tbl' where
    rest: "perform_all self (map (\<lambda>env. (env, Log_usage bundle_path)) envs) ?tbl1 = Inr tbl'"
    and e': "find_entry tbl' k =
       Some (?e1\<lparr>last_usage_time := last (last_usage_time ?e1 # ts'),
                  usage_count := usage_count ?e1 + int (length ts')\<rparr>)"
    by blast
  have "perform_all self (map (\<lambda>env. (env, Log_usage bundle_path)) (env # envs)) tbl = Inr tbl'"
    using step rest by simp
  moreover have "find_entry tbl' k =
      Some (e\<lparr>last_usage_time := last (last_usage_time e # ts),
              usage_count := usage_count e + int (length ts)\<rparr>)"
    using e' ts by simp
  ultimately show ?case by blast
qed

text \<open>
  C1, as the specification states it, fails: the times of the calls are not all times
  that can be stored. With the override \<^verbatim>\<open>9223372036854775808\<close>, that is \<open>2 ^ 63\<close>, the
  first \<open>log_usage\<close> of the path \<^verbatim>\<open>/cache/app_store/tk-shell/v1\<close> on a fresh table raises
  \<^verbatim>\<open>OverflowError\<close> and creates no entry.
\<close>

theorem log_usage_overflow_counterexample:
  "get_timestamp example_db (with_override ''9223372036854775808'' 1000) = Inr (2 ^ 63) \<and>
   log_usage example_db (with_override ''9223372036854775808'' 1000) example_path
     (create_main_table None) = Inl OverflowError"
  by (simp add: ledger_defs example_defs)

text \<open>
  C1, amended. Take a path made of the cache root, one separator and a key \<open>k\<close> that is
  not empty, in which the root string does not occur after its start; a table with no
  row for \<open>k\<close>; and calls of \<open>log_usage\<close> for that path at the times \<open>t # ts\<close>, all of them
  integers of 64 bits, fewer than \<open>2 ^ 63\<close> calls. The first call returns normally and
  leaves the entry of \<open>k\<close> with usage count 1 and with creation time and last usage time
  \<open>t\<close>. After all the calls the entry has the number of calls as its usage count, the
  time of the last call as its last usage time, and still \<open>t\<close> as its creation time.
  \<open>get_bundle\<close> returns that entry whenever its text for the debug log can be formatted,
  and raises what the formatting raises otherwise.
\<close>

theorem log_usage_first_and_repeated:
  assumes "bundle_path = Some (bundle_cache_root self @ os_sep self # k)" and "k \<noteq> []"
    and "\<not> str_contains (os_sep self # k) (bundle_cache_root self)"
    and "find_entry tbl k = None"
    and "map (get_timestamp self) (env # envs) = map Inr (t # ts)"
    and "list_all sqlite_integer (t # ts)"
    and "int (length (t # ts)) < 2 ^ 63"
  shows "\<exists>tbl1 tblN.
           log_usage self env bundle_path tbl = Inr tbl1 \<and>
           find_entry tbl1 k =
             Some \<lparr>path = k, creation_time = t, last_usage_time = t, usage_count = 1\<rparr> \<and>
           get_bundle self bundle_path tbl1 =
             (case entry_str self
                     \<lparr>path = k, creation_time = t, last_usage_time = t, usage_count = 1\<rparr> of
                Inl err \<Rightarrow> Inl err
              | Inr message \<Rightarrow>
                  Inr (Some \<lparr>path = k, creation_time = t, last_usage_time = t,
                              usage_count = 1\<rparr>)) \<and>
           perform_all self (map (\<lambda>env. (env, Log_usage bundle_path)) (env # envs)) tbl =
             Inr tblN \<and>
           find_entry tblN k =
             Some \<lparr>path = k, creation_time = t, last_usage_time = last (t # ts),
                   usage_count = int (length (t # ts))\<rparr> \<and>
           get_bundle self bundle_path tblN =
             (case entry_str self
                     \<lparr>path = k, creation_time = t, last_usage_time = last (t # ts),
                       usage_count = int (length (t # ts))\<rparr> of
                Inl err \<Rightarrow> Inl err
              | Inr message \<Rightarrow>
                  Inr (Some \<lparr>path = k, creation_time = t, last_usage_time = last (t # ts),
                              usage_count = int (length (t # ts))\<rparr>))"
proof -
  have key: "truncate_path self bundle_path = Some k"
    using assms(1,3) by (rule truncate_path_under_root)
  from assms(5) have t: "get_timestamp self env = Inr t"
    and ts: "map (get_timestamp self) envs = map Inr ts"
    by auto
  from assms(6) have range_t: "sqlite_integer t" and range_ts: "list_all sqlite_integer ts"
    by simp_all
  have one: "sqlite_integer 1"
    by (simp add: sqlite_integer_def)
  let ?tbl1 = "tbl @ [(k, t, t, 1)]"
  let ?e1 = "\<lparr>path = k, creation_time = t, last_usage_time = t, usage_count = 1\<rparr>"
  let ?eN = "\<lparr>path = k, creation_time = t, last_usage_time = last (t # ts),
             usage_count = int (length (t # ts))\<rparr>"
  have first: "log_usage self env bundle_path tbl = Inr ?tbl1"
    unfolding log_usage_def
    by (rule internal_log_usage_insert [OF key assms(2) t assms(4) range_t one])
  have found: "find_entry ?tbl1 k = Some ?e1"
    using assms(4) by (simp add: find_entry_append_new find_entry_None)
  have pos: "0 \<le> usage_count ?e1" and below: "usage_count ?e1 + int (length ts) < 2 ^ 63"
    using assms(7) by simp_all
  from log_usage_repeat_present [OF key assms(2) ts found range_ts pos below] obtain tblN where
    rest: "perform_all self (map (\<lambda>env. (env, Log_usage bundle_path)) envs) ?tbl1 = Inr tblN"
    and eN: "find_entry tblN k =
       Some (?e1\<lparr>last_usage_time := last (last_usage_time ?e1 # ts),
                  usage_count := usage_count ?e1 + int (length ts)\<rparr>)"
    by blast
  have all: "perform_all self (map (\<lambda>env. (env, Log_usage bundle_path)) (env # envs)) tbl =
      Inr tblN"
    using first rest by simp
  have foundN: "find_entry tblN k = Some ?eN"
    using eN by simp
  have get1: "get_bundle self bundle_path ?tbl1 =
      (case entry_str self ?e1 of Inl err \<Rightarrow> Inl err | Inr message \<Rightarrow> Inr (Some ?e1))"
    by (simp only: get_bundle_key [OF key assms(2)] found option.case)
  have getN: "get_bundle self bundle_path tblN =
      (case entry_str self ?eN of Inl err \<Rightarrow> Inl err | Inr message \<Rightarrow> Inr (Some ?eN))"
    by (simp only: get_bundle_key [OF key assms(2)] foundN option.case)
  from first found get1 all foundN getN show ?thesis
    by blast
qed

text \<open>
  The scenario of the specification: the path \<^verbatim>\<open>/cache/app_store/tk-shell/v1\<close> is logged
  at 1000 and again at 2000.
\<close>

theorem log_usage_first_and_repeated_witness:
  "example_path = Some (bundle_cache_root example_db @ os_sep example_db # ''app_store/tk-shell/v1'') \<and>
   \<not> str_contains (os_sep example_db # ''app_store/tk-shell/v1'') (bundle_cache_root example_db) \<and>
   find_entry [] ''app_store/tk-shell/v1'' = None \<and>
   map (get_timestamp example_db) [at_time 1000, at_time 2000] = map Inr [1000, 2000] \<and>
   list_all sqlite_integer [1000, 2000] \<and>
   (\<exists>tbl1 tblN.
      log_usage example_db (at_time 1000) example_path [] = Inr tbl1 \<and>
      get_bundle example_db example_path tbl1 =
        Inr (Some \<lparr>path = ''app_store/tk-shell/v1'', creation_time = 1000,
                    last_usage_time = 1000, usage_count = 1\<rparr>) \<and>
      perform_all example_db
        (map (\<lambda>env. (env, Log_usage example_path)) [at_time 1000, at_time 2000]) [] = Inr tblN \<and>
      find_entry tblN ''app_store/tk-shell/v1'' =
        Some \<lparr>path = ''app_store/tk-shell/v1'', creation_time = 1000,
              last_usage_time = 2000, usage_count = 2\<rparr> \<and>
      get_bundle example_db example_path tblN =
        Inr (Some \<lparr>path = ''app_store/tk-shell/v1'', creation_time = 1000,
                    last_usage_time = 2000, usage_count = 2\<rparr>))"
proof -
  let ?k = "''app_store/tk-shell/v1''"
  have path: "example_path = Some (bundle_cache_root example_db @ os_sep example_db # ?k)"
    by (simp add: example_defs)
  have once: "\<not> str_contains (os_sep example_db # ?k) (bundle_cache_root example_db)"
    by (simp add: example_defs startswith_def)
  have new: "find_entry [] ?k = None"
    by (simp add: ledger_defs)
  have times: "map (get_timestamp example_db) [at_time 1000, at_time 2000] = map Inr [1000, 2000]"
    by (simp add: ledger_defs example_defs)
  have range: "list_all sqlite_integer [1000, 2000]"
    by (simp add: sqlite_integer_def)
  have few: "int (length [1000, 2000 :: int]) < 2 ^ 63"
    by simp
  have ne: "?k \<noteq> []"
    by simp
  have str1: "entry_str example_db
      \<lparr>path = ?k, creation_time = 1000, last_usage_time = 1000, usage_count = 1\<rparr> =
      Inr (?k @ '', '' @ percent_d 1000 @ '' (a date)'')"
    by (simp add: ledger_defs example_defs)
  have str2: "entry_str example_db
      \<lparr>path = ?k, creation_time = 1000, last_usage_time = 2000, usage_count = 2\<rparr> =
      Inr (?k @ '', '' @ percent_d 2000 @ '' (a date)'')"
    by (simp add: ledger_defs example_defs)
  let ?e1 = "\<lparr>path = ?k, creation_time = 1000, last_usage_time = 1000, usage_count = 1\<rparr>"
  let ?eN = "\<lparr>path = ?k, creation_time = 1000, last_usage_time = last [1000, 2000],
             usage_count = int (length [1000, 2000 :: int])\<rparr>"
  from log_usage_first_and_repeated [OF path ne once new times range few]
  obtain tbl1 tblN where
    first: "log_usage example_db (at_time 1000) example_path [] = Inr tbl1"
    and get1: "get_bundle example_db example_path tbl1 =
      (case entry_str example_db ?e1 of Inl err \<Rightarrow> Inl err | Inr message \<Rightarrow> Inr (Some ?e1))"
    and all: "perform_all example_db
      (map (\<lambda>env. (env, Log_usage example_path)) [at_time 1000, at_time 2000]) [] = Inr tblN"
    and foundN: "find_entry tblN ?k = Some ?eN"
    and getN: "get_bundle example_db example_path tblN =
      (case entry_str example_db ?eN of Inl err \<Rightarrow> Inl err | Inr message \<Rightarrow> Inr (Some ?eN))"
    by blast
  from get1 have get1': "get_bundle example_db example_path tbl1 = Inr (Some ?e1)"
    by (simp add: str1)
  from foundN have foundN': "find_entry tblN ?k =
      Some \<lparr>path = ?k, creation_time = 1000, last_usage_time = 2000, usage_count = 2\<rparr>"
    by simp
  from getN have getN': "get_bundle example_db example_path tblN =
      Inr (Some \<lparr>path = ?k, creation_time = 1000, last_usage_time = 2000, usage_count = 2\<rparr>)"
    by (simp add: str2)
  from path once new times range first get1' all foundN' getN' show ?thesis
    by blast
qed


section \<open>One row for each path\<close>

lemma sql_insert_keys:
  "sql_insert tbl r = Inr tbl' \<Longrightarrow> distinct (map fst tbl) \<Longrightarrow> distinct (map fst tbl')"
  by (cases r) (auto split: if_splits)

lemma sql_update_keys:
  "sql_update tbl now n k = Inr tbl' \<Longrightarrow> distinct (map fst tbl) \<Longrightarrow> distinct (map fst tbl')"
  by (auto simp: sql_update_def keys_updated split: if_splits)

lemma sql_delete_keys: "distinct (map fst tbl) \<Longrightarrow> distinct (map fst (sql_delete tbl p))"
  by (simp add: sql_delete_def distinct_map_filter)

lemma internal_log_usage_keys:
  assumes "internal_log_usage self env bundle_path i tbl = Inr tbl'"
    and "distinct (map fst tbl)"
  shows "distinct (map fst tbl')"
  using assms
  by (auto simp: internal_log_usage_def
           split: option.splits if_splits sum.splits dest: sql_insert_keys sql_update_keys)

lemma perform_keys:
  assumes "perform self env c tbl = Inr tbl'" and "distinct (map fst tbl)"
  shows "distinct (map fst tbl')"
  using assms
  by (cases c)
     (auto simp: log_usage_def add_unused_bundle_def delete_entry_def sql_delete_keys
           dest: internal_log_usage_keys)

lemma run_keys: "distinct (map fst tbl) \<Longrightarrow> distinct (map fst (run self calls tbl))"
proof (induction calls arbitrary: tbl)
  case Nil
  then show ?case by simp
next
  case (Cons a calls)
  obtain env c where a: "a = (env, c)" by (cases a)
  show ?case
  proof (cases "perform self env c tbl")
    case (Inl e)
    with Cons a show ?thesis by simp
  next
    case (Inr tbl')
    then have "distinct (map fst tbl')"
      using Cons.prems by (rule perform_keys)
    with Cons.IH Inr a show ?thesis by simp
  qed
qed

lemma session_keys: "distinct (map fst (session self calls))"
  unfolding session_def by (rule run_keys) (simp add: create_main_table_def)

text \<open>
  C9. Whatever calls of \<open>log_usage\<close>, \<open>add_unused_bundle\<close> and \<open>delete_entry\<close> a session
  makes, with whatever paths, entries, overrides and clock readings, no two rows of the
  table it produces have the same path.
\<close>

theorem path_unique_in_every_session:
  "distinct (map path (map BundleCacheUsageDatabaseEntry (session self calls)))"
proof -
  have "map path (map BundleCacheUsageDatabaseEntry (session self calls)) =
      map fst (session self calls)"
    by (simp add: entry_path)
  then show ?thesis
    by (simp only: session_keys)
qed

section \<open>Creation time and last usage time\<close>

lemma times_upto_mono: "times_upto b tbl \<Longrightarrow> b \<le> b' \<Longrightarrow> times_upto b' tbl"
  by (fastforce simp: times_upto_def)

lemma times_upto_delete: "times_upto b tbl \<Longrightarrow> times_upto b (sql_delete tbl p)"
  by (auto simp: times_upto_def sql_delete_def)

lemma times_upto_update:
  "times_upto b tbl \<Longrightarrow> b \<le> now \<Longrightarrow> sql_update tbl now n k = Inr tbl' \<Longrightarrow>
   times_upto now tbl'"
  by (fastforce simp: times_upto_def sql_update_def updated_def split: if_splits)

lemma times_upto_insert:
  "times_upto b tbl \<Longrightarrow> b \<le> now \<Longrightarrow> sql_insert tbl (k, now, now, i) = Inr tbl' \<Longrightarrow>
   times_upto now tbl'"
  by (fastforce simp: times_upto_def split: if_splits)

lemma times_upto_internal_log_usage:
  assumes "internal_log_usage self env bundle_path i tbl = Inr tbl'"
    and "times_upto b tbl" and "get_timestamp self env = Inr now" and "b \<le> now"
  shows "times_upto now tbl'"
  using assms
  by (auto simp: internal_log_usage_def simp del: sql_insert.simps
           split: option.splits if_splits
           intro: times_upto_mono times_upto_update times_upto_insert)

lemma times_upto_perform:
  assumes "perform self env c tbl = Inr tbl'"
    and "times_upto b tbl" and "get_timestamp self env = Inr now" and "b \<le> now"
  shows "times_upto now tbl'"
  using assms
  by (cases c)
     (auto simp: log_usage_def add_unused_bundle_def delete_entry_def
           intro: times_upto_internal_log_usage times_upto_delete times_upto_mono)

lemma perform_no_timestamp:
  assumes "perform self env c tbl = Inr tbl'" and "get_timestamp self env = Inl e"
    and "times_upto b tbl"
  shows "times_upto b tbl'"
  using assms
  by (cases c)
     (auto simp: log_usage_def add_unused_bundle_def delete_entry_def internal_log_usage_def
           split: option.splits if_splits intro: times_upto_delete)

lemma times_upto_run:
  assumes "times_upto b tbl" and "sorted (b # stamps self calls)"
  shows "\<exists>b'. times_upto b' (run self calls tbl)"
  using assms
proof (induction calls arbitrary: b tbl)
  case Nil
  then show ?case by auto
next
  case (Cons a calls)
  obtain env c where a: "a = (env, c)" by (cases a)
  show ?case
  proof (cases "get_timestamp self env")
    case (Inl e)
    then have st: "sorted (b # stamps self calls)"
      using Cons.prems(2) a by simp
    show ?thesis
    proof (cases "perform self env c tbl")
      case (Inl e')
      with Cons.IH [OF Cons.prems(1) st] a show ?thesis by simp
    next
      case (Inr tbl')
      then have "times_upto b tbl'"
        using Inl Cons.prems(1) by (rule perform_no_timestamp)
      from Cons.IH [OF this st] Inr a show ?thesis by simp
    qed
  next
    case (Inr now)
    then have le: "b \<le> now" and st: "sorted (now # stamps self calls)"
      using Cons.prems(2) a by auto
    show ?thesis
    proof (cases "perform self env c tbl")
      case (Inl e')
      have "times_upto now tbl"
        using Cons.prems(1) le by (rule times_upto_mono)
      from Cons.IH [OF this st] Inl a show ?thesis by simp
    next
      case (Inr tbl')
      then have "times_upto now tbl'"
        using Cons.prems(1) \<open>get_timestamp self env = Inr now\<close> le by (rule times_upto_perform)
      from Cons.IH [OF this st] Inr a show ?thesis by simp
    qed
  qed
qed

text \<open>
  C2, as the specification states it, fails: nothing in the class compares the reading of
  the timestamp source with the times already stored. When a bundle is logged at 2000 and
  logged again after the clock was set back to 1000, its row has creation time 2000 and
  last usage time 1000.
\<close>

theorem creation_after_last_usage_counterexample:
  "\<not> list_all consistent_times
       (map BundleCacheUsageDatabaseEntry
          (session example_db
             [(at_time 2000, Log_usage example_path), (at_time 1000, Log_usage example_path)]))"
  by (simp add: ledger_defs example_defs consistent_times_def)

text \<open>
  C2, amended. In a session along which the readings of the timestamp source never
  decrease, every entry of the table has a creation time less than or equal to its last
  usage time.
\<close>

theorem creation_before_last_usage_if_clock_monotone:
  assumes "sorted (stamps self calls)"
  shows "list_all consistent_times (map BundleCacheUsageDatabaseEntry (session self calls))"
proof -
  have "\<exists>b'. times_upto b' (run self calls (create_main_table None))"
  proof (cases "stamps self calls")
    case Nil
    have "times_upto 0 (create_main_table None)"
      by (simp add: times_upto_def create_main_table_def)
    moreover have "sorted (0 # stamps self calls)"
      using Nil by simp
    ultimately show ?thesis by (rule times_upto_run)
  next
    case (Cons t ts)
    have "times_upto t (create_main_table None)"
      by (simp add: times_upto_def create_main_table_def)
    moreover have "sorted (t # stamps self calls)"
      using assms Cons by simp
    ultimately show ?thesis by (rule times_upto_run)
  qed
  then show ?thesis
    by (auto simp: times_upto_def list_all_iff consistent_times_def session_def)
qed

theorem creation_before_last_usage_if_clock_monotone_witness:
  "sorted (stamps example_db
             [(at_time 1000, Log_usage example_path), (at_time 2000, Log_usage example_path)]) \<and>
   list_all consistent_times
     (map BundleCacheUsageDatabaseEntry
        (session example_db
           [(at_time 1000, Log_usage example_path), (at_time 2000, Log_usage example_path)]))"
proof -
  have "sorted (stamps example_db
      [(at_time 1000, Log_usage example_path), (at_time 2000, Log_usage example_path)])"
    by (simp add: ledger_defs example_defs)
  from this creation_before_last_usage_if_clock_monotone [OF this]
  show ?thesis by simp
qed

section \<open>Listing the bundles not used since a given time\<close>

lemma get_unused_bundles_filter:
  "sqlite_integer t \<Longrightarrow>
   get_unused_bundles t tbl =
     Inr (filter (\<lambda>e. last_usage_time e \<le> t) (map BundleCacheUsageDatabaseEntry tbl))"
  by (induction tbl) (auto simp: get_unused_bundles_def sql_select_last_usage_def)

text \<open>
  C6, as the specification states it, fails: not every threshold can be given to the
  statement. On a table with one entry, last used at 1000, \<open>get_unused_bundles\<close> with
  the threshold \<open>2 ^ 63\<close> raises \<^verbatim>\<open>OverflowError\<close> where the claim has it return the entry.
\<close>

theorem get_unused_bundles_overflow_counterexample:
  "session example_db [(at_time 1000, Log_usage example_path)] =
     [(''app_store/tk-shell/v1'', 1000, 1000, 1)] \<and>
   get_unused_bundles 9223372036854775808
     (session example_db [(at_time 1000, Log_usage example_path)]) = Inl OverflowError"
  by (simp add: ledger_defs example_defs)

text \<open>
  C6, amended. For every threshold \<open>t\<close> that is an integer of 64 bits, on the table of any
  session, \<open>get_unused_bundles t\<close> returns, in storage order, the entries whose last usage
  time is less than or equal to \<open>t\<close>: each of them is in the result, no entry used after
  \<open>t\<close> is, and the result holds no entry twice, not even two entries of the same path.
\<close>

theorem get_unused_bundles_exact:
  assumes "sqlite_integer t"
  shows "\<exists>es. get_unused_bundles t (session self calls) = Inr es \<and>
           es = filter (\<lambda>e. last_usage_time e \<le> t)
                  (map BundleCacheUsageDatabaseEntry (session self calls)) \<and>
           set es = {e \<in> set (map BundleCacheUsageDatabaseEntry (session self calls)).
                       last_usage_time e \<le> t} \<and>
           distinct (map path es) \<and>
           distinct es"
proof -
  let ?tbl = "session self calls"
  let ?es = "filter (\<lambda>e. last_usage_time e \<le> t) (map BundleCacheUsageDatabaseEntry ?tbl)"
  have eq: "map path (map BundleCacheUsageDatabaseEntry ?tbl) = map fst ?tbl"
    by (simp add: entry_path)
  have "distinct (map path (map BundleCacheUsageDatabaseEntry ?tbl))"
    unfolding eq by (rule session_keys)
  then have d: "distinct (map path ?es)"
    by (rule distinct_map_filter)
  then have "distinct ?es"
    by (simp add: distinct_map)
  moreover have "set ?es = {e \<in> set (map BundleCacheUsageDatabaseEntry ?tbl). last_usage_time e \<le> t}"
    by simp
  moreover have "get_unused_bundles t ?tbl = Inr ?es"
    using assms by (rule get_unused_bundles_filter)
  ultimately show ?thesis
    using d by blast
qed

text \<open>
  The scenario of the specification: after usages at 1000 and at 2000, nothing is unused
  since 1500, and the entry is unused since 2500.
\<close>

theorem get_unused_bundles_exact_witness:
  "sqlite_integer 1500 \<and> sqlite_integer 2500 \<and>
   get_unused_bundles 1500
     (session example_db
        [(at_time 1000, Log_usage example_path), (at_time 2000, Log_usage example_path)]) =
     Inr [] \<and>
   get_unused_bundles 2500
     (session example_db
        [(at_time 1000, Log_usage example_path), (at_time 2000, Log_usage example_path)]) =
     Inr [\<lparr>path = ''app_store/tk-shell/v1'', creation_time = 1000, last_usage_time = 2000,
            usage_count = 2\<rparr>]"
proof -
  let ?calls = "[(at_time 1000, Log_usage example_path), (at_time 2000, Log_usage example_path)]"
  have tbl: "session example_db ?calls = [(''app_store/tk-shell/v1'', 1000, 2000, 2)]"
    by (simp add: ledger_defs example_defs)
  have early: "sqlite_integer 1500" and late: "sqlite_integer 2500"
    by (simp_all add: sqlite_integer_def)
  from get_unused_bundles_exact [OF early, of example_db ?calls]
       get_unused_bundles_exact [OF late, of example_db ?calls]
       early late
  show ?thesis by (simp add: tbl)
qed


section \<open>Deleting an entry\<close>

lemma sql_delete_absent: "p \<notin> fst ` set tbl \<Longrightarrow> sql_delete tbl p = tbl"
  by (induction tbl) (auto simp: sql_delete_def)

lemma sql_delete_length:
  "distinct (map fst tbl) \<Longrightarrow> p \<in> fst ` set tbl \<Longrightarrow>
   Suc (length (sql_delete tbl p)) = length tbl"
proof (induction tbl)
  case Nil
  then show ?case by simp
next
  case (Cons r tbl)
  show ?case
  proof (cases "fst r = p")
    case True
    with Cons.prems(1) have "p \<notin> fst ` set tbl" by auto
    then have "sql_delete tbl p = tbl" by (rule sql_delete_absent)
    with True show ?thesis by (simp add: sql_delete_def)
  next
    case False
    with Cons show ?thesis by (auto simp: sql_delete_def)
  qed
qed

text \<open>
  C7. On the table of any session, \<open>delete_entry\<close> never raises. When the table has a row
  for the path of the entry, the row is gone afterwards: looking the path up finds
  nothing, \<open>get_bundle\<close> returns nothing for every path with that key, the count is one
  less, and looking any other path up gives what it gave before. When the table has no
  row for the path, the table and the count stay as they are.
\<close>

theorem delete_entry_present_and_absent:
  "(find_entry (session self calls) (path bundle) \<noteq> None \<longrightarrow>
      find_entry (delete_entry bundle (session self calls)) (path bundle) = None \<and>
      (\<forall>bundle_path. truncate_path self bundle_path = Some (path bundle) \<longrightarrow>
         get_bundle self bundle_path (delete_entry bundle (session self calls)) = Inr None) \<and>
      (\<forall>k. k \<noteq> path bundle \<longrightarrow>
         find_entry (delete_entry bundle (session self calls)) k =
           find_entry (session self calls) k) \<and>
      get_bundle_count (delete_entry bundle (session self calls)) =
        get_bundle_count (session self calls) - 1) \<and>
   (find_entry (session self calls) (path bundle) = None \<longrightarrow>
      delete_entry bundle (session self calls) = session self calls \<and>
      get_bundle_count (delete_entry bundle (session self calls)) =
        get_bundle_count (session self calls)) \<and>
   perform self env (Delete_entry bundle) (session self calls) =
     Inr (delete_entry bundle (session self calls))"
proof -
  let ?tbl = "session self calls"
  have absent: "delete_entry bundle ?tbl = ?tbl" if "find_entry ?tbl (path bundle) = None"
    using that by (simp add: delete_entry_def find_entry_None sql_delete_absent)
  have count: "get_bundle_count (delete_entry bundle ?tbl) = get_bundle_count ?tbl - 1"
    if "find_entry ?tbl (path bundle) \<noteq> None"
  proof -
    from that have "path bundle \<in> fst ` set ?tbl"
      by (simp add: find_entry_None)
    with session_keys have "Suc (length (sql_delete ?tbl (path bundle))) = length ?tbl"
      by (rule sql_delete_length)
    then show ?thesis
      by (simp add: get_bundle_count_def delete_entry_def)
  qed
  have gone: "get_bundle self bundle_path (delete_entry bundle ?tbl) = Inr None"
    if "truncate_path self bundle_path = Some (path bundle)" for bundle_path
    using that by (simp add: get_bundle_def delete_entry_def find_entry_delete)
  show ?thesis
    using absent count gone
    by (simp add: delete_entry_def find_entry_delete find_entry_delete_other)
qed

text \<open>
  One bundle is tracked. Deleting an entry of its path empties the table; deleting an
  entry of a path that was never logged changes nothing.
\<close>

theorem delete_entry_present_and_absent_witness:
  "find_entry (session example_db [(at_time 1000, Log_usage example_path)])
     ''app_store/tk-shell/v1'' \<noteq> None \<and>
   truncate_path example_db example_path = Some ''app_store/tk-shell/v1'' \<and>
   get_bundle example_db example_path
     (delete_entry
        \<lparr>path = ''app_store/tk-shell/v1'', creation_time = 1513635533,
          last_usage_time = 1513636533, usage_count = 1\<rparr>
        (session example_db [(at_time 1000, Log_usage example_path)])) = Inr None \<and>
   get_bundle_count
     (delete_entry
        \<lparr>path = ''app_store/tk-shell/v1'', creation_time = 1513635533,
          last_usage_time = 1513636533, usage_count = 1\<rparr>
        (session example_db [(at_time 1000, Log_usage example_path)])) =
     get_bundle_count (session example_db [(at_time 1000, Log_usage example_path)]) - 1 \<and>
   find_entry (session example_db [(at_time 1000, Log_usage example_path)])
     ''foOOOo-bar!'' = None \<and>
   delete_entry
     \<lparr>path = ''foOOOo-bar!'', creation_time = 1513635533,
       last_usage_time = 1513636533, usage_count = 1\<rparr>
     (session example_db [(at_time 1000, Log_usage example_path)]) =
     session example_db [(at_time 1000, Log_usage example_path)] \<and>
   find_entry
     (delete_entry
        \<lparr>path = ''foOOOo-bar!'', creation_time = 1513635533,
          last_usage_time = 1513636533, usage_count = 1\<rparr>
        (session example_db [(at_time 1000, Log_usage example_path)]))
     ''app_store/tk-shell/v1'' =
     find_entry (session example_db [(at_time 1000, Log_usage example_path)])
       ''app_store/tk-shell/v1''"
proof -
  let ?calls = "[(at_time 1000, Log_usage example_path)]"
  let ?tbl = "session example_db ?calls"
  let ?present = "\<lparr>path = ''app_store/tk-shell/v1'', creation_time = 1513635533,
          last_usage_time = 1513636533, usage_count = 1\<rparr>"
  let ?absent = "\<lparr>path = ''foOOOo-bar!'', creation_time = 1513635533,
       last_usage_time = 1513636533, usage_count = 1\<rparr>"
  have tbl: "?tbl = [(''app_store/tk-shell/v1'', 1000, 1000, 1)]"
    by (simp add: ledger_defs example_defs)
  have key: "truncate_path example_db example_path = Some ''app_store/tk-shell/v1''"
    by (simp add: ledger_defs example_defs)
  have there: "find_entry ?tbl ''app_store/tk-shell/v1'' \<noteq> None"
    unfolding tbl by (simp add: ledger_defs)
  have missing: "find_entry ?tbl ''foOOOo-bar!'' = None"
    unfolding tbl by (simp add: ledger_defs)
  have other: "''app_store/tk-shell/v1'' \<noteq> ''foOOOo-bar!''"
    by simp
  from delete_entry_present_and_absent [of example_db ?calls ?present "at_time 0"]
       delete_entry_present_and_absent [of example_db ?calls ?absent "at_time 0"]
       key there missing other
  show ?thesis by simp
qed

section \<open>Where truncating a path goes wrong\<close>

text \<open>
  C3 holds in what it says of the absent result (\<open>truncate_path_None_iff\<close>) and the
  method cannot raise on a string or on \<^verbatim>\<open>None\<close>. It does not hold in what it says of
  the key: \<^verbatim>\<open>replace\<close> removes the cache root wherever it occurs in the path, not only
  at its start. For the root \<^verbatim>\<open>/sg/bundle_cache\<close>, the path
  \<^verbatim>\<open>/sg/bundle_cache/app_store/sg/bundle_cache/v1\<close> is truncated to \<^verbatim>\<open>app_store/v1\<close>,
  where the path relative to the root is \<^verbatim>\<open>app_store/sg/bundle_cache/v1\<close>.
\<close>

theorem truncate_path_removes_every_occurrence:
  "truncate_path
     \<lparr>bundle_cache_root = ''/sg/bundle_cache'', os_sep = CHR ''/'', builtin_int = int_of_digits,
      fromtimestamp_strftime = example_date\<rparr>
     (Some ''/sg/bundle_cache/app_store/sg/bundle_cache/v1'') = Some ''app_store/v1''"
  by (simp add: ledger_defs)

text \<open>
  Two consequences. A path under the cache root that repeats the root and has nothing
  else gets the empty key, so a usage of it is not recorded; and two paths that differ
  only by an inner occurrence of the root share one key, so they share one entry.
\<close>

lemma repeated_root_is_not_tracked:
  "truncate_path example_db (Some ''/cache/cache'') = Some [] \<and>
   log_usage example_db (at_time 1000) (Some ''/cache/cache'') [] = Inr []"
  by (simp add: ledger_defs example_defs)

lemma inner_root_shares_the_entry:
  "session example_db
     [(at_time 1000, Log_usage (Some ''/cache/app_store/v1'')),
      (at_time 2000, Log_usage (Some ''/cache/app_store/cache/v1''))] =
   [(''app_store/v1'', 1000, 2000, 2)]"
  by (simp add: ledger_defs example_defs)

section \<open>Paths that have no key\<close>

text \<open>
  For \<^verbatim>\<open>None\<close>, for the empty string and for every path that does not start with the
  characters of the cache root, \<open>log_usage\<close> and \<open>add_unused_bundle\<close> return normally with
  the table they were given, whatever the override and the clock are, and \<open>get_bundle\<close>
  returns nothing, whatever the table holds.
\<close>

lemma no_key_is_silently_ignored:
  assumes "bundle_path = None \<or> bundle_path = Some [] \<or>
           (\<exists>p. bundle_path = Some p \<and> \<not> startswith p (bundle_cache_root self))"
  shows "log_usage self env bundle_path tbl = Inr tbl \<and>
         add_unused_bundle self env bundle_path tbl = Inr tbl \<and>
         get_bundle self bundle_path tbl = Inr None"
proof -
  from assms have "truncate_path self bundle_path = None"
    by (auto simp: truncate_path_None_iff)
  then show ?thesis
    by (simp add: log_usage_def add_unused_bundle_def internal_log_usage_no_key get_bundle_def)
qed

text \<open>
  C5 holds for the inputs of the lemma above, and does not hold for every path that is
  not under the cache root: the test is \<^verbatim>\<open>startswith\<close> on the characters, with no
  separator after the root. The path \<^verbatim>\<open>/cachefoo/bar\<close> is not under \<^verbatim>\<open>/cache\<close>, still it is
  truncated to \<^verbatim>\<open>foo/bar\<close>: \<open>log_usage\<close> and \<open>add_unused_bundle\<close> create an entry for it, the
  entry that \<^verbatim>\<open>/cache/foo/bar\<close> has, and \<open>get_bundle\<close> returns it.
\<close>

theorem path_beside_cache_root_is_tracked:
  "bundle_cache_root example_db = ''/cache'' \<and>
   truncate_path example_db (Some ''/cachefoo/bar'') = Some ''foo/bar'' \<and>
   log_usage example_db (at_time 1000) (Some ''/cachefoo/bar'') [] =
     Inr [(''foo/bar'', 1000, 1000, 1)] \<and>
   add_unused_bundle example_db (at_time 1000) (Some ''/cachefoo/bar'') [] =
     Inr [(''foo/bar'', 1000, 1000, 0)] \<and>
   get_bundle example_db (Some ''/cachefoo/bar'') [(''foo/bar'', 1000, 1000, 1)] =
     Inr (Some \<lparr>path = ''foo/bar'', creation_time = 1000, last_usage_time = 1000,
                 usage_count = 1\<rparr>)"
  by (simp add: ledger_defs example_defs)

lemma truncate_path_root:
  assumes "bundle_cache_root self \<noteq> []"
  shows "truncate_path self (Some (bundle_cache_root self)) = Some []"
proof -
  have "str_replace (bundle_cache_root self @ []) (bundle_cache_root self) [] = []"
    using assms by (subst str_replace_prefix) simp_all
  then have "str_replace (bundle_cache_root self) (bundle_cache_root self) [] = []"
    by simp
  with assms show ?thesis
    by (simp add: truncate_path_def startswith_def)
qed

lemma truncate_path_root_sep:
  assumes "bundle_cache_root self \<noteq> []"
  shows "truncate_path self (Some (bundle_cache_root self @ [os_sep self])) = Some []"
proof -
  let ?root = "bundle_cache_root self"
  let ?sep = "os_sep self"
  have rest: "str_replace (?root @ [?sep]) ?root [] = str_replace [?sep] ?root []"
    using assms by (subst str_replace_prefix) simp_all
  have start: "startswith (?root @ [?sep]) ?root"
    by (simp add: startswith_def)
  show ?thesis
  proof (cases "startswith [?sep] ?root")
    case True
    with assms have "?root = [?sep]"
      by (cases ?root) (auto simp: startswith_def)
    then have "str_replace [?sep] ?root [] = []"
      by (simp add: startswith_def)
    with rest start show ?thesis
      by (simp add: truncate_path_def startswith_def)
  next
    case False
    then have "str_replace [?sep] ?root [] = [?sep]"
      using assms by simp
    with rest start show ?thesis
      by (simp add: truncate_path_def startswith_def)
  qed
qed

text \<open>
  C10. The cache root of a database is never empty: the constructor joins
  \<^verbatim>\<open>bundle_cache\<close> to the global root. For the cache root itself, and for the cache root
  followed by one separator, \<open>truncate_path\<close> returns the empty string, and the methods
  treat it as they treat no key: \<open>log_usage\<close> and \<open>add_unused_bundle\<close> return normally
  with the table they were given, and \<open>get_bundle\<close> returns nothing.
\<close>

theorem cache_root_itself_is_no_key:
  assumes "bundle_cache_root self \<noteq> []"
    and "p = bundle_cache_root self \<or> p = bundle_cache_root self @ [os_sep self]"
  shows "truncate_path self (Some p) = Some [] \<and>
         log_usage self env (Some p) tbl = Inr tbl \<and>
         add_unused_bundle self env (Some p) tbl = Inr tbl \<and>
         get_bundle self (Some p) tbl = Inr None"
proof -
  from assms have "truncate_path self (Some p) = Some []"
    by (auto simp: truncate_path_root truncate_path_root_sep)
  then show ?thesis
    by (simp add: log_usage_def add_unused_bundle_def internal_log_usage_no_key get_bundle_def)
qed

theorem cache_root_itself_is_no_key_witness:
  "bundle_cache_root example_db \<noteq> [] \<and>
   truncate_path example_db (Some ''/cache'') = Some [] \<and>
   truncate_path example_db (Some ''/cache/'') = Some [] \<and>
   log_usage example_db (at_time 1000) (Some ''/cache'') [] = Inr [] \<and>
   add_unused_bundle example_db (at_time 1000) (Some ''/cache/'') [] = Inr [] \<and>
   get_bundle example_db (Some ''/cache/'') [(''app_store/tk-shell/v1'', 1000, 1000, 1)] =
     Inr None"
proof -
  have root: "bundle_cache_root example_db = ''/cache''" and sep: "os_sep example_db = CHR ''/''"
    by (simp_all add: example_db_def)
  have ne: "bundle_cache_root example_db \<noteq> []"
    by (simp add: root)
  from cache_root_itself_is_no_key [OF ne, of "''/cache''" "at_time 1000" "[]"]
       cache_root_itself_is_no_key [OF ne, of "''/cache/''" "at_time 1000" "[]"]
       cache_root_itself_is_no_key
         [OF ne, of "''/cache/''" "at_time 1000" "[(''app_store/tk-shell/v1'', 1000, 1000, 1)]"]
       ne
  show ?thesis by (simp add: root sep)
qed


section \<open>The timestamp and its override\<close>

text \<open>
  C8. When the override is unset or is the empty string, the timestamp is the reading of
  the clock. When it is a non-empty string that \<^verbatim>\<open>int\<close> converts to \<open>n\<close>, the timestamp
  is \<open>n\<close>, and \<open>log_usage\<close> and \<open>add_unused_bundle\<close> do what they do when the clock reads
  \<open>n\<close>. When it is a non-empty string that \<^verbatim>\<open>int\<close> does not convert, asking for the
  timestamp raises \<^verbatim>\<open>ValueError\<close>, and so do \<open>log_usage\<close> and \<open>add_unused_bundle\<close> on every
  path that has a key, the calls that need a timestamp.
\<close>

theorem timestamp_override_cases:
  "(timestamp_override env = None \<or> timestamp_override env = Some [] \<longrightarrow>
      get_timestamp self env = Inr (time_time env)) \<and>
   (timestamp_override env = Some s \<and> s \<noteq> [] \<and> builtin_int self s = Some n \<longrightarrow>
      get_timestamp self env = Inr n \<and>
      (\<forall>bundle_path tbl.
         log_usage self env bundle_path tbl =
           log_usage self \<lparr>timestamp_override = None, time_time = n\<rparr> bundle_path tbl \<and>
         add_unused_bundle self env bundle_path tbl =
           add_unused_bundle self \<lparr>timestamp_override = None, time_time = n\<rparr> bundle_path tbl)) \<and>
   (timestamp_override env = Some s \<and> s \<noteq> [] \<and> builtin_int self s = None \<longrightarrow>
      get_timestamp self env = Inl ValueError \<and>
      (\<forall>bundle_path k tbl.
         truncate_path self bundle_path = Some k \<and> k \<noteq> [] \<longrightarrow>
           log_usage self env bundle_path tbl = Inl ValueError \<and>
           add_unused_bundle self env bundle_path tbl = Inl ValueError))"
proof (intro conjI impI)
  assume "timestamp_override env = None \<or> timestamp_override env = Some []"
  then show "get_timestamp self env = Inr (time_time env)"
    by (auto simp: get_timestamp_def)
next
  assume a: "timestamp_override env = Some s \<and> s \<noteq> [] \<and> builtin_int self s = Some n"
  then show t: "get_timestamp self env = Inr n"
    by (simp add: get_timestamp_def)
  have "get_timestamp self \<lparr>timestamp_override = None, time_time = n\<rparr> = Inr n"
    by (simp add: get_timestamp_def)
  with t show "\<forall>bundle_path tbl.
         log_usage self env bundle_path tbl =
           log_usage self \<lparr>timestamp_override = None, time_time = n\<rparr> bundle_path tbl \<and>
         add_unused_bundle self env bundle_path tbl =
           add_unused_bundle self \<lparr>timestamp_override = None, time_time = n\<rparr> bundle_path tbl"
    by (simp add: log_usage_def add_unused_bundle_def internal_log_usage_def
             split: option.splits)
next
  assume a: "timestamp_override env = Some s \<and> s \<noteq> [] \<and> builtin_int self s = None"
  then show t: "get_timestamp self env = Inl ValueError"
    by (simp add: get_timestamp_def)
  then show "\<forall>bundle_path k tbl.
         truncate_path self bundle_path = Some k \<and> k \<noteq> [] \<longrightarrow>
           log_usage self env bundle_path tbl = Inl ValueError \<and>
           add_unused_bundle self env bundle_path tbl = Inl ValueError"
    by (simp add: log_usage_def add_unused_bundle_def internal_log_usage_error)
qed

theorem timestamp_override_cases_witness:
  "get_timestamp example_db (at_time 1000) = Inr 1000 \<and>
   get_timestamp example_db (with_override [] 1000) = Inr 1000 \<and>
   builtin_int example_db ''2234'' = Some 2234 \<and>
   get_timestamp example_db (with_override ''2234'' 1000) = Inr 2234 \<and>
   builtin_int example_db ''agsjhdgkasda'' = None \<and>
   get_timestamp example_db (with_override ''agsjhdgkasda'' 1000) = Inl ValueError \<and>
   truncate_path example_db example_path = Some ''app_store/tk-shell/v1'' \<and>
   log_usage example_db (with_override ''2234'' 1000) example_path [] =
     Inr [(''app_store/tk-shell/v1'', 2234, 2234, 1)] \<and>
   log_usage example_db (with_override ''agsjhdgkasda'' 1000) example_path [] = Inl ValueError \<and>
   add_unused_bundle example_db (with_override ''agsjhdgkasda'' 1000) example_path [] =
     Inl ValueError"
proof -
  have good: "builtin_int example_db ''2234'' = Some 2234"
    by (simp add: example_defs)
  have bad: "builtin_int example_db ''agsjhdgkasda'' = None"
    by (simp add: example_defs)
  have key: "truncate_path example_db example_path = Some ''app_store/tk-shell/v1''"
    by (simp add: ledger_defs example_defs)
  have unset: "timestamp_override (at_time 1000) = None"
    and empty: "timestamp_override (with_override [] 1000) = Some []"
    and set_good: "timestamp_override (with_override ''2234'' 1000) = Some ''2234''"
    and set_bad: "timestamp_override (with_override ''agsjhdgkasda'' 1000) = Some ''agsjhdgkasda''"
    and clock: "time_time (at_time 1000) = 1000" "time_time (with_override [] 1000) = 1000"
    by (simp_all add: at_time_def with_override_def)
  from timestamp_override_cases [of "at_time 1000" example_db "''x''" 0]
       timestamp_override_cases [of "with_override [] 1000" example_db "''x''" 0]
       timestamp_override_cases [of "with_override ''2234'' 1000" example_db "''2234''" 2234]
       timestamp_override_cases
         [of "with_override ''agsjhdgkasda'' 1000" example_db "''agsjhdgkasda''" 0]
       good bad key unset empty set_good set_bad clock
  show ?thesis by (simp add: ledger_defs)
qed


section \<open>Bundles added before they are used\<close>

text \<open>
  C4, as the specification states it, fails: now is not always a time that can be
  stored. With the override \<^verbatim>\<open>9223372036854775808\<close>, \<open>add_unused_bundle\<close> of a path that
  the fresh table does not hold raises \<^verbatim>\<open>OverflowError\<close> and inserts nothing.
\<close>

theorem add_unused_bundle_overflow_counterexample:
  "find_entry (create_main_table None) ''app_store/tk-shell/v1'' = None \<and>
   get_timestamp example_db (with_override ''9223372036854775808'' 1000) = Inr (2 ^ 63) \<and>
   add_unused_bundle example_db (with_override ''9223372036854775808'' 1000) example_path
     (create_main_table None) = Inl OverflowError"
  by (simp add: ledger_defs example_defs)

text \<open>
  C4, amended. Take a path made of the cache root, one separator and a key \<open>k\<close> that is
  not empty, in which the root string does not occur after its start, and times that are
  integers of 64 bits. On a table with no row for \<open>k\<close>, \<open>add_unused_bundle\<close> appends the
  row of \<open>k\<close> with usage count 0 and with creation time and last usage time now. On a
  table with a row for \<open>k\<close> it does what \<open>log_usage\<close> does, at any time: when the new
  count is an integer of 64 bits too, the last usage time becomes now and the usage
  count grows by 1. So \<open>add_unused_bundle\<close> followed by one \<open>log_usage\<close> of the same path
  leaves the usage count 1, and \<open>get_bundle\<close> returns that entry whenever its text for the
  debug log can be formatted.
\<close>

theorem add_unused_bundle_starts_at_zero:
  assumes "bundle_path = Some (bundle_cache_root self @ os_sep self # k)" and "k \<noteq> []"
    and "\<not> str_contains (os_sep self # k) (bundle_cache_root self)"
  shows "(find_entry tbl k = None \<and> get_timestamp self env = Inr now \<and> sqlite_integer now \<longrightarrow>
            add_unused_bundle self env bundle_path tbl = Inr (tbl @ [(k, now, now, 0)]) \<and>
            find_entry (tbl @ [(k, now, now, 0)]) k =
              Some \<lparr>path = k, creation_time = now, last_usage_time = now, usage_count = 0\<rparr>) \<and>
         (find_entry tbl k \<noteq> None \<longrightarrow>
            add_unused_bundle self env bundle_path tbl = log_usage self env bundle_path tbl) \<and>
         (find_entry tbl k = Some e \<and> get_timestamp self env = Inr now \<and>
          sqlite_integer now \<and> sqlite_integer (usage_count e + 1) \<longrightarrow>
            (\<exists>tbl'. add_unused_bundle self env bundle_path tbl = Inr tbl' \<and>
               find_entry tbl' k =
                 Some (e\<lparr>last_usage_time := now, usage_count := usage_count e + 1\<rparr>))) \<and>
         (find_entry tbl k = None \<and>
          get_timestamp self env = Inr now \<and> sqlite_integer now \<and>
          get_timestamp self env' = Inr now' \<and> sqlite_integer now' \<longrightarrow>
            (\<exists>tbl1 tbl2.
               add_unused_bundle self env bundle_path tbl = Inr tbl1 \<and>
               log_usage self env' bundle_path tbl1 = Inr tbl2 \<and>
               find_entry tbl2 k =
                 Some \<lparr>path = k, creation_time = now, last_usage_time = now',
                       usage_count = 1\<rparr> \<and>
               get_bundle self bundle_path tbl2 =
                 (case entry_str self
                         \<lparr>path = k, creation_time = now, last_usage_time = now',
                           usage_count = 1\<rparr> of
                    Inl err \<Rightarrow> Inl err
                  | Inr message \<Rightarrow>
                      Inr (Some \<lparr>path = k, creation_time = now, last_usage_time = now',
                                  usage_count = 1\<rparr>))))"
proof (intro conjI impI)
  have key: "truncate_path self bundle_path = Some k"
    using assms(1,3) by (rule truncate_path_under_root)
  have zero: "sqlite_integer 0" and one: "sqlite_integer (0 + 1)"
    by (simp_all add: sqlite_integer_def)
  {
    assume a: "find_entry tbl k = None \<and> get_timestamp self env = Inr now \<and> sqlite_integer now"
    then show "add_unused_bundle self env bundle_path tbl = Inr (tbl @ [(k, now, now, 0)])"
      unfolding add_unused_bundle_def
      using zero by (intro internal_log_usage_insert [OF key assms(2)]) simp_all
    from a show "find_entry (tbl @ [(k, now, now, 0)]) k =
        Some \<lparr>path = k, creation_time = now, last_usage_time = now, usage_count = 0\<rparr>"
      by (simp add: find_entry_append_new find_entry_None)
  }
  {
    assume "find_entry tbl k \<noteq> None"
    then show "add_unused_bundle self env bundle_path tbl = log_usage self env bundle_path tbl"
      using key assms(2)
      by (auto simp: add_unused_bundle_def log_usage_def internal_log_usage_def
               split: sum.splits)
  }
  {
    assume a: "find_entry tbl k = Some e \<and> get_timestamp self env = Inr now \<and>
               sqlite_integer now \<and> sqlite_integer (usage_count e + 1)"
    then have "add_unused_bundle self env bundle_path tbl =
        Inr (updated tbl now (usage_count e + 1) k)"
      unfolding add_unused_bundle_def
      by (intro internal_log_usage_update [OF key assms(2)]) simp_all
    moreover have "find_entry (updated tbl now (usage_count e + 1) k) k =
        Some (e\<lparr>last_usage_time := now, usage_count := usage_count e + 1\<rparr>)"
      using a by (simp add: find_entry_updated)
    ultimately show "\<exists>tbl'. add_unused_bundle self env bundle_path tbl = Inr tbl' \<and>
        find_entry tbl' k =
          Some (e\<lparr>last_usage_time := now, usage_count := usage_count e + 1\<rparr>)"
      by blast
  }
  {
    assume a: "find_entry tbl k = None \<and>
               get_timestamp self env = Inr now \<and> sqlite_integer now \<and>
               get_timestamp self env' = Inr now' \<and> sqlite_integer now'"
    let ?tbl1 = "tbl @ [(k, now, now, 0)]"
    let ?e1 = "\<lparr>path = k, creation_time = now, last_usage_time = now, usage_count = 0\<rparr>"
    let ?e2 = "\<lparr>path = k, creation_time = now, last_usage_time = now', usage_count = 1\<rparr>"
    let ?tbl2 = "updated ?tbl1 now' (usage_count ?e1 + 1) k"
    have first: "add_unused_bundle self env bundle_path tbl = Inr ?tbl1"
      unfolding add_unused_bundle_def
      using a zero by (intro internal_log_usage_insert [OF key assms(2)]) simp_all
    have found: "find_entry ?tbl1 k = Some ?e1"
      using a by (simp add: find_entry_append_new find_entry_None)
    have second: "log_usage self env' bundle_path ?tbl1 = Inr ?tbl2"
      unfolding log_usage_def
      using a found one by (intro internal_log_usage_update [OF key assms(2)]) simp_all
    have "find_entry ?tbl2 k =
        Some (?e1\<lparr>last_usage_time := now', usage_count := usage_count ?e1 + 1\<rparr>)"
      using found by (rule find_entry_updated)
    then have found2: "find_entry ?tbl2 k = Some ?e2"
      by simp
    have "get_bundle self bundle_path ?tbl2 =
        (case entry_str self ?e2 of Inl err \<Rightarrow> Inl err | Inr message \<Rightarrow> Inr (Some ?e2))"
      by (simp only: get_bundle_key [OF key assms(2)] found2 option.case)
    with first second found2 show "\<exists>tbl1 tbl2.
        add_unused_bundle self env bundle_path tbl = Inr tbl1 \<and>
        log_usage self env' bundle_path tbl1 = Inr tbl2 \<and>
        find_entry tbl2 k = Some ?e2 \<and>
        get_bundle self bundle_path tbl2 =
          (case entry_str self ?e2 of Inl err \<Rightarrow> Inl err | Inr message \<Rightarrow> Inr (Some ?e2))"
      by blast
  }
qed

theorem add_unused_bundle_starts_at_zero_witness:
  "example_path = Some (bundle_cache_root example_db @ os_sep example_db # ''app_store/tk-shell/v1'') \<and>
   \<not> str_contains (os_sep example_db # ''app_store/tk-shell/v1'') (bundle_cache_root example_db) \<and>
   find_entry [] ''app_store/tk-shell/v1'' = None \<and>
   get_timestamp example_db (at_time 1000) = Inr 1000 \<and> sqlite_integer 1000 \<and>
   get_timestamp example_db (at_time 2000) = Inr 2000 \<and> sqlite_integer 2000 \<and>
   add_unused_bundle example_db (at_time 1000) example_path [] =
     Inr [(''app_store/tk-shell/v1'', 1000, 1000, 0)] \<and>
   (\<exists>tbl1 tbl2.
      add_unused_bundle example_db (at_time 1000) example_path [] = Inr tbl1 \<and>
      log_usage example_db (at_time 2000) example_path tbl1 = Inr tbl2 \<and>
      get_bundle example_db example_path tbl2 =
        Inr (Some \<lparr>path = ''app_store/tk-shell/v1'', creation_time = 1000,
                    last_usage_time = 2000, usage_count = 1\<rparr>)) \<and>
   find_entry [(''app_store/tk-shell/v1'', 1000, 1000, 5)] ''app_store/tk-shell/v1'' =
     Some \<lparr>path = ''app_store/tk-shell/v1'', creation_time = 1000,
           last_usage_time = 1000, usage_count = 5\<rparr> \<and>
   add_unused_bundle example_db (at_time 2000) example_path
       [(''app_store/tk-shell/v1'', 1000, 1000, 5)] =
     log_usage example_db (at_time 2000) example_path
       [(''app_store/tk-shell/v1'', 1000, 1000, 5)] \<and>
   (\<exists>tbl'. add_unused_bundle example_db (at_time 2000) example_path
              [(''app_store/tk-shell/v1'', 1000, 1000, 5)] = Inr tbl' \<and>
      find_entry tbl' ''app_store/tk-shell/v1'' =
        Some \<lparr>path = ''app_store/tk-shell/v1'', creation_time = 1000,
              last_usage_time = 2000, usage_count = 6\<rparr>)"
proof -
  let ?k = "''app_store/tk-shell/v1''"
  let ?e = "\<lparr>path = ?k, creation_time = 1000, last_usage_time = 1000, usage_count = 5\<rparr>"
  let ?e2 = "\<lparr>path = ?k, creation_time = 1000, last_usage_time = 2000, usage_count = 1\<rparr>"
  have path: "example_path = Some (bundle_cache_root example_db @ os_sep example_db # ?k)"
    by (simp add: example_defs)
  have once: "\<not> str_contains (os_sep example_db # ?k) (bundle_cache_root example_db)"
    by (simp add: example_defs startswith_def)
  have ne: "?k \<noteq> []"
    by simp
  have new: "find_entry [] ?k = None"
    by (simp add: ledger_defs)
  have old: "find_entry [(?k, 1000, 1000, 5)] ?k = Some ?e"
    by (simp add: ledger_defs)
  have t1: "get_timestamp example_db (at_time 1000) = Inr 1000"
    and t2: "get_timestamp example_db (at_time 2000) = Inr 2000"
    by (simp_all add: ledger_defs example_defs)
  have r1: "sqlite_integer 1000" and r2: "sqlite_integer 2000"
    and r6: "sqlite_integer (usage_count ?e + 1)"
    by (simp_all add: sqlite_integer_def)
  have str2: "entry_str example_db ?e2 = Inr (?k @ '', '' @ percent_d 2000 @ '' (a date)'')"
    by (simp add: ledger_defs example_defs)
  note fresh = add_unused_bundle_starts_at_zero
         [OF path ne once, of "[]" "at_time 1000" 1000 ?e "at_time 2000" 2000]
  note known = add_unused_bundle_starts_at_zero
         [OF path ne once, of "[(?k, 1000, 1000, 5)]" "at_time 2000" 2000 ?e "at_time 2000" 2000]
  from fresh new t1 r1 have zero:
    "add_unused_bundle example_db (at_time 1000) example_path [] = Inr [(?k, 1000, 1000, 0)]"
    by simp
  from fresh new t1 t2 r1 r2 obtain tbl1 tbl2 where
    a1: "add_unused_bundle example_db (at_time 1000) example_path [] = Inr tbl1"
    and a2: "log_usage example_db (at_time 2000) example_path tbl1 = Inr tbl2"
    and a3: "get_bundle example_db example_path tbl2 =
      (case entry_str example_db ?e2 of Inl err \<Rightarrow> Inl err | Inr message \<Rightarrow> Inr (Some ?e2))"
    by blast
  from a3 have a3': "get_bundle example_db example_path tbl2 = Inr (Some ?e2)"
    by (simp add: str2)
  from known old have same:
    "add_unused_bundle example_db (at_time 2000) example_path [(?k, 1000, 1000, 5)] =
     log_usage example_db (at_time 2000) example_path [(?k, 1000, 1000, 5)]"
    by simp
  from known old t2 r2 r6 have "\<exists>tbl'.
      add_unused_bundle example_db (at_time 2000) example_path [(?k, 1000, 1000, 5)] = Inr tbl' \<and>
      find_entry tbl' ?k =
        Some (?e\<lparr>last_usage_time := 2000, usage_count := usage_count ?e + 1\<rparr>)"
    by blast
  then have more: "\<exists>tbl'.
      add_unused_bundle example_db (at_time 2000) example_path [(?k, 1000, 1000, 5)] = Inr tbl' \<and>
      find_entry tbl' ?k =
        Some \<lparr>path = ?k, creation_time = 1000, last_usage_time = 2000, usage_count = 6\<rparr>"
    by simp
  from path once new t1 r1 t2 r2 zero a1 a2 a3' old same more
  show ?thesis by blast
qed

end
